theory Spec2Isabelle
  imports Main "HOL-Library.Word"
begin

unbundle bit_operations_syntax

section \<open>Data of the e-cash driver (src/task3/driver.js)\<close>

text \<open>
  A \<open>Buffer\<close> is a list of bytes. Hex strings, commitment strings and hash digests
  are ASCII text and are modelled as \<open>string\<close>. The string that \<open>Buffer.toString()\<close>
  decodes from arbitrary bytes is a JavaScript string, a sequence of UTF-16 code
  units; the identity marker \<open>IDENT_STR\<close> it is compared with is of the same type.
\<close>

type_synonym byte = "8 word"
type_synonym buffer = "byte list"
type_synonym jsstring = "16 word list"

text \<open>
  The exceptions \<open>driver.js\<close> can raise:
  \<^item> \<open>InvalidSignature\<close>: \<^verbatim>\<open>throw new Error("Invalid coin signature.")\<close>;
  \<^item> \<open>MalformedCoin cnst\<close>: \<^verbatim>\<open>throw new Error(`Invalid identity string: ${cnst} received, ...`)\<close>;
  \<^item> \<open>ShareCommitmentMismatch i\<close>: \<^verbatim>\<open>throw new Error(`RIS hash mismatch at index ${i}`)\<close>;
  \<^item> \<open>TypeError\<close>: the runtime's exception when a method is called on \<open>undefined\<close>
    or \<open>undefined\<close> is given to \<open>Buffer.from\<close>.
\<close>

datatype error =
    InvalidSignature
  | MalformedCoin string
  | ShareCommitmentMismatch nat
  | TypeError

text \<open>
  \<open>determineCheater\<close> returns nothing; its outcome is the line it prints.
  \<open>BuyerIdentified xorStr\<close> is the line
  \<^verbatim>\<open>Double-spending detected! Cheater is the buyer. ID: ${xorStr}\<close>, carrying the whole
  decoded string \<open>xorStr\<close> the code prints, and \<open>MerchantSuspected\<close> is the line
  \<^verbatim>\<open>Double-spending detected! Cheater is the merchant.\<close>
\<close>

datatype verdict = BuyerIdentified jsstring | MerchantSuspected

section \<open>Runtime primitives used by the driver\<close>

text \<open>Reading a JavaScript array: an index out of range gives \<open>undefined\<close>.\<close>

definition nth_opt :: "'a list \<Rightarrow> nat \<Rightarrow> 'a option" where
  "nth_opt xs i = (if i < length xs then Some (xs ! i) else None)"

text \<open>The value of a hexadecimal digit, upper or lower case.\<close>

definition unhex :: "char \<Rightarrow> byte option" where
  "unhex c =
     (let v = (of_char c :: nat) in
      if 48 \<le> v \<and> v \<le> 57 then Some (of_nat (v - 48))
      else if 97 \<le> v \<and> v \<le> 102 then Some (of_nat (v - 87))
      else if 65 \<le> v \<and> v \<le> 70 then Some (of_nat (v - 55))
      else None)"

text \<open>
  \<open>Buffer.from(s, 'hex')\<close>: two digits give one byte; decoding stops at the first pair
  that is not two hexadecimal digits, and a last single character is dropped.
\<close>

fun Buffer_from_hex :: "string \<Rightarrow> buffer" where
  "Buffer_from_hex (a # b # rest) =
     (case unhex a of
        None \<Rightarrow> []
      | Some x \<Rightarrow>
          (case unhex b of
             None \<Rightarrow> []
           | Some y \<Rightarrow> (push_bit 4 x OR y) # Buffer_from_hex rest))"
| "Buffer_from_hex _ = []"

text \<open>\<open>buf.toString('hex')\<close>: two lower-case digits for each byte.\<close>

definition hexdigit :: "nat \<Rightarrow> char" where
  "hexdigit d = ''0123456789abcdef'' ! d"

definition Buffer_toString_hex :: "buffer \<Rightarrow> string" where
  "Buffer_toString_hex buf = concat (map (\<lambda>b. [hexdigit (unat b div 16), hexdigit (unat b mod 16)]) buf)"

text \<open>
  \<open>buf.toString()\<close> decodes the bytes as UTF-8. The decoder is the one of the WHATWG
  Encoding standard: it keeps the code point being built, the number of continuation
  bytes still needed and the bounds allowed for the next byte; a byte that cannot
  continue or start a sequence gives U+FFFD, and a byte that breaks a sequence is
  read again as the start of the next one.
\<close>

type_synonym utf8_state = "nat \<times> nat \<times> byte \<times> byte"

definition utf8_init :: utf8_state where
  "utf8_init = (0, 0, 0x80, 0xBF)"

definition utf8_lead :: "byte \<Rightarrow> nat list \<times> utf8_state" where
  "utf8_lead b =
     (if b \<le> 0x7F then ([unat b], utf8_init)
      else if 0xC2 \<le> b \<and> b \<le> 0xDF then ([], (unat (b AND 0x1F), 1, 0x80, 0xBF))
      else if 0xE0 \<le> b \<and> b \<le> 0xEF then
        ([], (unat (b AND 0x0F), 2, if b = 0xE0 then 0xA0 else 0x80, if b = 0xED then 0x9F else 0xBF))
      else if 0xF0 \<le> b \<and> b \<le> 0xF4 then
        ([], (unat (b AND 0x07), 3, if b = 0xF0 then 0x90 else 0x80, if b = 0xF4 then 0x8F else 0xBF))
      else ([0xFFFD], utf8_init))"

fun utf8_decode :: "utf8_state \<Rightarrow> buffer \<Rightarrow> nat list" where
  "utf8_decode (cp, needed, lo, hi) [] = (if needed = 0 then [] else [0xFFFD])"
| "utf8_decode (cp, needed, lo, hi) (b # bs) =
     (if needed = 0 then
        (case utf8_lead b of (out, st) \<Rightarrow> out @ utf8_decode st bs)
      else if lo \<le> b \<and> b \<le> hi then
        (if needed = 1 then (cp * 64 + unat (b AND 0x3F)) # utf8_decode utf8_init bs
         else utf8_decode (cp * 64 + unat (b AND 0x3F), needed - 1, 0x80, 0xBF) bs)
      else
        (case utf8_lead b of (out, st) \<Rightarrow> 0xFFFD # out @ utf8_decode st bs))"

text \<open>A code point as UTF-16: one code unit, or a surrogate pair from U+10000 on.\<close>

definition utf16_units :: "nat \<Rightarrow> jsstring" where
  "utf16_units cp =
     (if cp < 0x10000 then [of_nat cp]
      else [of_nat (0xD800 + (cp - 0x10000) div 0x400), of_nat (0xDC00 + (cp - 0x10000) mod 0x400)])"

definition Buffer_toString :: "buffer \<Rightarrow> jsstring" where
  "Buffer_toString buf = concat (map utf16_units (utf8_decode utf8_init buf))"

text \<open>\<open>s.startsWith(m)\<close>.\<close>

definition startsWith :: "jsstring \<Rightarrow> jsstring \<Rightarrow> bool" where
  "startsWith s m \<longleftrightarrow> take (length m) s = m"

text \<open>A JavaScript string literal of ASCII characters, as code units.\<close>

definition js :: "string \<Rightarrow> jsstring" where
  "js s = map of_char s"

section \<open>determineCheater\<close>

text \<open>
  The inner loop of \<open>determineCheater\<close>:
  \<^verbatim>\<open>let xor = Buffer.alloc(buf1.length);
  for (let j = 0; j < buf1.length; j++) { xor[j] = buf1[j] ^ buf2[j]; }\<close>
  It runs over the length of \<open>buf1\<close>. Beyond the end of \<open>buf2\<close> the read \<open>buf2[j]\<close> is
  \<open>undefined\<close>, which \<open>^\<close> takes as 0; bytes of \<open>buf2\<close> beyond the length of \<open>buf1\<close>
  are not read.
\<close>

definition xor_buffers :: "buffer \<Rightarrow> buffer \<Rightarrow> buffer" where
  "xor_buffers buf1 buf2 =
     map (\<lambda>j. (buf1 ! j) XOR (case nth_opt buf2 j of None \<Rightarrow> 0 | Some b \<Rightarrow> b)) [0..<length buf1]"

text \<open>The string \<open>xorStr\<close> of one round, from the two hex strings of that round.\<close>

definition xorStr_of :: "string \<Rightarrow> string \<Rightarrow> jsstring" where
  "xorStr_of h1 h2 = Buffer_toString (xor_buffers (Buffer_from_hex h1) (Buffer_from_hex h2))"

text \<open>
  The outer loop, from round \<open>i\<close> on. \<open>COIN_RIS_LENGTH\<close> and \<open>IDENT_STR\<close> are constants
  of \<open>coin.js\<close> and are parameters here. \<open>Buffer.from(undefined, 'hex')\<close> raises a
  \<open>TypeError\<close>, so a share set with fewer than \<open>COIN_RIS_LENGTH\<close> entries makes the
  round that reads past its end fail.
\<close>

function determineCheater_loop ::
  "nat \<Rightarrow> jsstring \<Rightarrow> string list \<Rightarrow> string list \<Rightarrow> nat \<Rightarrow> error + verdict" where
  "determineCheater_loop COIN_RIS_LENGTH IDENT_STR ris1 ris2 i =
     (if i < COIN_RIS_LENGTH then
        (case nth_opt ris1 i of
           None \<Rightarrow> Inl TypeError
         | Some h1 \<Rightarrow>
             (case nth_opt ris2 i of
                None \<Rightarrow> Inl TypeError
              | Some h2 \<Rightarrow>
                  (if startsWith (xorStr_of h1 h2) IDENT_STR
                   then Inr (BuyerIdentified (xorStr_of h1 h2))
                   else determineCheater_loop COIN_RIS_LENGTH IDENT_STR ris1 ris2 (Suc i))))
      else Inr MerchantSuspected)"
  by pat_completeness auto
termination
  by (relation "measure (\<lambda>(k, m, r1, r2, i). k - i)") auto

declare determineCheater_loop.simps [simp del]

definition determineCheater ::
  "nat \<Rightarrow> jsstring \<Rightarrow> string \<Rightarrow> string list \<Rightarrow> string list \<Rightarrow> error + verdict" where
  "determineCheater COIN_RIS_LENGTH IDENT_STR guid ris1 ris2 =
     determineCheater_loop COIN_RIS_LENGTH IDENT_STR ris1 ris2 0"

section \<open>The coin\<close>

text \<open>
  Modelled from the spec: the class \<open>Coin\<close> of \<open>coin.js\<close>, which is not among the
  sources. The fields are those of the spec's data model; \<open>signature\<close> and \<open>guid\<close> are
  read under these names by the driver, \<open>bank_modulus\<close> and \<open>bank_exponent\<close> are its
  \<open>coin.n\<close> and \<open>coin.e\<close>, \<open>blinded_hash\<close> its \<open>coin.blinded\<close>. A coin without a
  signature has \<open>signature = None\<close>.
\<close>

record coin =
  amount :: nat
  guid :: string
  bank_modulus :: string
  bank_exponent :: string
  commitment_string :: string
  left_shares :: "buffer list"
  right_shares :: "buffer list"
  blinded_hash :: int
  signature :: "int option"

text \<open>
  Modelled from the spec: \<open>coin.toString()\<close> gives the commitment string, the text
  that was signed.
\<close>

definition Coin_toString :: "coin \<Rightarrow> string" where
  "Coin_toString c = commitment_string c"

text \<open>
  Modelled from the spec: \<open>coin.getRis(isLeft, i)\<close> is \<open>reveal_share\<close>; it reads
  \<open>left_shares[i]\<close> or \<open>right_shares[i]\<close> and changes nothing. An index out of range
  gives \<open>undefined\<close>.
\<close>

definition Coin_getRis :: "coin \<Rightarrow> bool \<Rightarrow> nat \<Rightarrow> buffer option" where
  "Coin_getRis c isLeft i = nth_opt (if isLeft then left_shares c else right_shares c) i"

text \<open>
  The statement \<^verbatim>\<open>coin.signature = signCoin(coin.blinded);\<close> of the driver, with the
  bank's answer \<open>sig\<close> given: an assignment to the field. It has no failing outcome;
  the result type only makes that explicit.
\<close>

definition attach_signature :: "int \<Rightarrow> coin \<Rightarrow> error + coin" where
  "attach_signature sig c = Inr (c\<lparr>signature := Some sig\<rparr>)"

section \<open>parseCoin\<close>

text \<open>\<open>s.split(sep)\<close> for a separator of one character; the empty string gives \<open>[""]\<close>.\<close>

fun split_on :: "char \<Rightarrow> string \<Rightarrow> string list" where
  "split_on sep [] = [[]]"
| "split_on sep (c # cs) =
     (if c = sep then [] # split_on sep cs
      else (case split_on sep cs of [] \<Rightarrow> [[c]] | w # ws \<Rightarrow> (c # w) # ws))"

text \<open>
  \<open>BANK_STR\<close> is a constant of \<open>coin.js\<close> and a parameter here. The destructuring
  \<^verbatim>\<open>let [cnst, amt, guid, leftHashes, rightHashes] = s.split('-')\<close> leaves a name
  \<open>undefined\<close> when the string has too few parts, and \<open>undefined.split(',')\<close> raises a
  \<open>TypeError\<close>.
\<close>

definition parseCoin :: "string \<Rightarrow> string \<Rightarrow> error + (string list \<times> string list)" where
  "parseCoin BANK_STR s =
     (let parts = split_on CHR ''-'' s in
      case nth_opt parts 0 of
        None \<Rightarrow> Inl (MalformedCoin ''undefined'')
      | Some cnst \<Rightarrow>
          if cnst \<noteq> BANK_STR then Inl (MalformedCoin cnst)
          else
            (case nth_opt parts 3 of
               None \<Rightarrow> Inl TypeError
             | Some leftHashes \<Rightarrow>
                 (case nth_opt parts 4 of
                    None \<Rightarrow> Inl TypeError
                  | Some rightHashes \<Rightarrow>
                      Inr (split_on CHR '','' leftHashes, split_on CHR '','' rightHashes))))"

section \<open>acceptCoin\<close>

text \<open>
  The external primitives are parameters: \<open>verify\<close> is \<open>blindSignatures.verify\<close>
  applied to \<open>unblinded\<close>, \<open>N\<close>, \<open>E\<close> and \<open>message\<close>; \<open>hash\<close> is \<open>utils.hash\<close>;
  \<open>draws i\<close> is the value that \<open>utils.randInt(2)\<close> returns in round \<open>i\<close>.
  The coin is passed through and returned beside the outcome, so that what acceptance
  leaves of it can be stated. Hashing an \<open>undefined\<close> share fails with a \<open>TypeError\<close>.
  A committed hash that is missing is \<open>undefined\<close> and differs from every digest.
\<close>

function acceptCoin_loop ::
  "(buffer \<Rightarrow> string) \<Rightarrow> (nat \<Rightarrow> nat) \<Rightarrow> nat \<Rightarrow> string list \<Rightarrow> string list \<Rightarrow>
   coin \<Rightarrow> nat \<Rightarrow> string list \<Rightarrow> (error + string list) \<times> coin" where
  "acceptCoin_loop hash draws COIN_RIS_LENGTH leftHashes rightHashes coin i ris =
     (if i < COIN_RIS_LENGTH then
        (case Coin_getRis coin (draws i = 0) i of
           None \<Rightarrow> (Inl TypeError, coin)
         | Some part \<Rightarrow>
             (if Some (hash part) \<noteq> (if draws i = 0 then nth_opt leftHashes i else nth_opt rightHashes i)
              then (Inl (ShareCommitmentMismatch i), coin)
              else acceptCoin_loop hash draws COIN_RIS_LENGTH leftHashes rightHashes coin (Suc i)
                     (ris @ [Buffer_toString_hex part])))
      else (Inr ris, coin))"
  by pat_completeness auto
termination
  by (relation "measure (\<lambda>(h, d, k, lh, rh, c, i, ris). k - i)") auto

declare acceptCoin_loop.simps [simp del]

definition acceptCoin ::
  "(int option \<Rightarrow> string \<Rightarrow> string \<Rightarrow> string \<Rightarrow> bool) \<Rightarrow> (buffer \<Rightarrow> string) \<Rightarrow> (nat \<Rightarrow> nat) \<Rightarrow>
   nat \<Rightarrow> string \<Rightarrow> coin \<Rightarrow> (error + string list) \<times> coin" where
  "acceptCoin verify hash draws COIN_RIS_LENGTH BANK_STR coin =
     (if \<not> verify (signature coin) (bank_modulus coin) (bank_exponent coin) (Coin_toString coin)
      then (Inl InvalidSignature, coin)
      else
        (case parseCoin BANK_STR (Coin_toString coin) of
           Inl err \<Rightarrow> (Inl err, coin)
         | Inr (leftHashes, rightHashes) \<Rightarrow>
             acceptCoin_loop hash draws COIN_RIS_LENGTH leftHashes rightHashes coin 0 []))"

section \<open>Predicates used to state the properties\<close>

text \<open>
  Round \<open>i\<close> of acceptance is verified when the share on the drawn side exists and
  its hash is the committed hash of that side and round.
\<close>

definition round_verified ::
  "(buffer \<Rightarrow> string) \<Rightarrow> (nat \<Rightarrow> nat) \<Rightarrow> string list \<Rightarrow> string list \<Rightarrow> coin \<Rightarrow> nat \<Rightarrow> bool" where
  "round_verified hash draws leftHashes rightHashes c i =
     (case Coin_getRis c (draws i = 0) i of
        None \<Rightarrow> False
      | Some part \<Rightarrow>
          Some (hash part) = (if draws i = 0 then nth_opt leftHashes i else nth_opt rightHashes i))"

text \<open>The share of round \<open>i\<close> on the drawn side, for a coin that has it.\<close>

definition revealed_share :: "(nat \<Rightarrow> nat) \<Rightarrow> coin \<Rightarrow> nat \<Rightarrow> buffer" where
  "revealed_share draws c i = (if draws i = 0 then left_shares c ! i else right_shares c ! i)"

text \<open>
  What the spec takes for the owner identity: the rest of the decoded string of a
  round after the identity marker.
\<close>

definition identity_after_marker :: "jsstring \<Rightarrow> jsstring \<Rightarrow> jsstring" where
  "identity_after_marker IDENT_STR xorStr = drop (length IDENT_STR) xorStr"

section \<open>Example data\<close>

text \<open>
  A coin of two rounds for the owner identity \<open>I\<close>: in both rounds the left share
  XOR the right share is the byte 0x49. The stand-ins for the external primitives are
  a verifier that accepts the signature 1, a hash that writes its input in hex, and
  draws that choose left in the even rounds and right in the odd ones.
\<close>

definition demo_verify :: "int option \<Rightarrow> string \<Rightarrow> string \<Rightarrow> string \<Rightarrow> bool" where
  "demo_verify sig N E message \<longleftrightarrow> sig = Some 1"

definition demo_hash :: "buffer \<Rightarrow> string" where
  "demo_hash part = Buffer_toString_hex part"

definition demo_draws :: "nat \<Rightarrow> nat" where
  "demo_draws i = i mod 2"

definition demo_coin :: coin where
  "demo_coin =
     \<lparr>amount = 20, guid = ''g1'', bank_modulus = ''N'', bank_exponent = ''E'',
      commitment_string = ''BANK-20-g1-01,02-48,4b'',
      left_shares = [[0x01], [0x02]], right_shares = [[0x48], [0x4B]],
      blinded_hash = 0, signature = Some 1\<rparr>"

section \<open>Lemmas about the two loops\<close>

lemma determineCheater_loop_first:
  assumes "i0 \<le> i" "i < K" "i < length ris1" "i < length ris2"
    and "startsWith (xorStr_of (ris1 ! i) (ris2 ! i)) M"
    and "\<forall>j. i0 \<le> j \<and> j < i \<longrightarrow> \<not> startsWith (xorStr_of (ris1 ! j) (ris2 ! j)) M"
  shows "determineCheater_loop K M ris1 ris2 i0 = Inr (BuyerIdentified (xorStr_of (ris1 ! i) (ris2 ! i)))"
  using assms
proof (induction "i - i0" arbitrary: i0)
  case 0
  then have "i0 = i" by simp
  with 0 show ?case
    by (subst determineCheater_loop.simps) (simp add: nth_opt_def)
next
  case (Suc d)
  then have lt: "i0 < i" by simp
  with Suc.prems have nomatch: "\<not> startsWith (xorStr_of (ris1 ! i0) (ris2 ! i0)) M" by simp
  have step: "determineCheater_loop K M ris1 ris2 (Suc i0) =
      Inr (BuyerIdentified (xorStr_of (ris1 ! i) (ris2 ! i)))"
  proof (rule Suc.hyps(1))
    show "d = i - Suc i0" using Suc.hyps(2) by simp
    show "Suc i0 \<le> i" using lt by simp
    show "\<forall>j. Suc i0 \<le> j \<and> j < i \<longrightarrow> \<not> startsWith (xorStr_of (ris1 ! j) (ris2 ! j)) M"
      using Suc.prems(6) by simp
  qed (use Suc.prems in simp_all)
  from lt Suc.prems nomatch step show ?case
    by (subst determineCheater_loop.simps) (simp add: nth_opt_def)
qed

lemma determineCheater_loop_none:
  assumes "K \<le> length ris1" "K \<le> length ris2"
    and "\<forall>j. i0 \<le> j \<and> j < K \<longrightarrow> \<not> startsWith (xorStr_of (ris1 ! j) (ris2 ! j)) M"
  shows "determineCheater_loop K M ris1 ris2 i0 = Inr MerchantSuspected"
  using assms
proof (induction "K - i0" arbitrary: i0)
  case 0
  then show ?case by (subst determineCheater_loop.simps) simp
next
  case (Suc d)
  then have lt: "i0 < K" by simp
  have step: "determineCheater_loop K M ris1 ris2 (Suc i0) = Inr MerchantSuspected"
  proof (rule Suc.hyps(1))
    show "d = K - Suc i0" using Suc.hyps(2) by simp
    show "\<forall>j. Suc i0 \<le> j \<and> j < K \<longrightarrow> \<not> startsWith (xorStr_of (ris1 ! j) (ris2 ! j)) M"
      using Suc.prems(3) by simp
  qed (use Suc.prems in simp_all)
  from lt Suc.prems step show ?case
    by (subst determineCheater_loop.simps) (simp add: nth_opt_def)
qed

lemma determineCheater_loop_returns:
  assumes "K \<le> length ris1" "K \<le> length ris2"
  shows "\<exists>v. determineCheater_loop K M ris1 ris2 i0 = Inr v"
  using assms
proof (induction "K - i0" arbitrary: i0)
  case 0
  then show ?case by (subst determineCheater_loop.simps) simp
next
  case (Suc d)
  then have lt: "i0 < K" by simp
  have "\<exists>v. determineCheater_loop K M ris1 ris2 (Suc i0) = Inr v"
    using Suc.hyps(2) Suc.prems by (intro Suc.hyps(1)) simp_all
  with lt Suc.prems show ?case
    by (subst determineCheater_loop.simps) (simp add: nth_opt_def)
qed

lemma xor_buffers_self: "xor_buffers b b = replicate (length b) 0"
  by (rule nth_equalityI) (simp_all add: xor_buffers_def nth_opt_def)

lemma length_xor_buffers: "length (xor_buffers a b) = length a"
  by (simp add: xor_buffers_def)

lemma nth_xor_buffers:
  "j < length a \<Longrightarrow> xor_buffers a b ! j = (a ! j) XOR (if j < length b then b ! j else 0)"
  by (simp add: xor_buffers_def nth_opt_def)

lemma utf8_decode_zeros: "utf8_decode utf8_init (replicate n 0) = replicate n 0"
  by (induction n) (simp_all add: utf8_init_def utf8_lead_def)

lemma Buffer_toString_zeros: "Buffer_toString (replicate n 0) = replicate n 0"
  by (simp add: Buffer_toString_def utf8_decode_zeros utf16_units_def map_replicate)

lemma startsWith_zeros:
  assumes "startsWith (replicate n 0) m"
  shows "\<forall>c\<in>set m. c = 0"
proof -
  from assms have "set m \<subseteq> set (replicate n (0::16 word))"
    unfolding startsWith_def by (metis set_take_subset)
  then show ?thesis by auto
qed

lemma snd_acceptCoin_loop:
  "snd (acceptCoin_loop hash draws K lh rh c i ris) = c"
proof (induction hash draws K lh rh c i ris rule: acceptCoin_loop.induct)
  case (1 hash draws K lh rh c i ris)
  show ?case
  proof (cases "i < K")
    case False
    then show ?thesis by (subst acceptCoin_loop.simps) simp
  next
    case True
    show ?thesis
    proof (cases "Coin_getRis c (draws i = 0) i")
      case None
      with True show ?thesis by (subst acceptCoin_loop.simps) simp
    next
      case (Some part)
      show ?thesis
      proof (cases "Some (hash part) \<noteq> (if draws i = 0 then nth_opt lh i else nth_opt rh i)")
        case bad: True
        with True Some show ?thesis by (subst acceptCoin_loop.simps) simp
      next
        case good: False
        with True Some "1.IH" [OF True Some] show ?thesis
          by (subst acceptCoin_loop.simps) simp
      qed
    qed
  qed
qed

lemma acceptCoin_loop_all_verified:
  assumes "\<forall>j. i \<le> j \<and> j < K \<longrightarrow> round_verified hash draws lh rh c j"
  shows "fst (acceptCoin_loop hash draws K lh rh c i ris) =
         Inr (ris @ map (\<lambda>j. Buffer_toString_hex (revealed_share draws c j)) [i..<K])"
  using assms
proof (induction "K - i" arbitrary: i ris)
  case 0
  then show ?case by (subst acceptCoin_loop.simps) simp
next
  case (Suc d)
  then have lt: "i < K" by simp
  with Suc.prems have ok: "round_verified hash draws lh rh c i" by simp
  then obtain part where part: "Coin_getRis c (draws i = 0) i = Some part"
    and h: "Some (hash part) = (if draws i = 0 then nth_opt lh i else nth_opt rh i)"
    by (auto simp: round_verified_def split: option.splits)
  from part have rs: "revealed_share draws c i = part"
    by (auto simp: Coin_getRis_def revealed_share_def nth_opt_def split: if_splits)
  have step: "fst (acceptCoin_loop hash draws K lh rh c (Suc i) (ris @ [Buffer_toString_hex part])) =
      Inr ((ris @ [Buffer_toString_hex part]) @
           map (\<lambda>j. Buffer_toString_hex (revealed_share draws c j)) [Suc i..<K])"
    using Suc.hyps(2) Suc.prems by (intro Suc.hyps(1)) simp_all
  from lt part h step rs show ?case
    by (subst acceptCoin_loop.simps) (simp add: upt_conv_Cons)
qed

lemma acceptCoin_loop_first_mismatch:
  assumes "i \<le> m" "m < K" "\<not> round_verified hash draws lh rh c m"
    and "Coin_getRis c (draws m = 0) m \<noteq> None"
    and "\<forall>j. i \<le> j \<and> j < m \<longrightarrow> round_verified hash draws lh rh c j"
  shows "fst (acceptCoin_loop hash draws K lh rh c i ris) = Inl (ShareCommitmentMismatch m)"
  using assms
proof (induction "m - i" arbitrary: i ris)
  case 0
  then have eq: "i = m" by simp
  from "0.prems"(4) obtain part where part: "Coin_getRis c (draws m = 0) m = Some part" by auto
  with "0.prems"(3) have bad: "Some (hash part) \<noteq> (if draws m = 0 then nth_opt lh m else nth_opt rh m)"
    by (simp add: round_verified_def)
  from eq "0.prems"(2) part bad show ?case
    by (subst acceptCoin_loop.simps) (auto split: if_splits)
next
  case (Suc d)
  then have lt: "i < m" by simp
  with Suc.prems have ok: "round_verified hash draws lh rh c i" by simp
  then obtain part where part: "Coin_getRis c (draws i = 0) i = Some part"
    and h: "Some (hash part) = (if draws i = 0 then nth_opt lh i else nth_opt rh i)"
    by (auto simp: round_verified_def split: option.splits)
  have step: "fst (acceptCoin_loop hash draws K lh rh c (Suc i) (ris @ [Buffer_toString_hex part])) =
      Inl (ShareCommitmentMismatch m)"
    using Suc.hyps(2) Suc.prems lt by (intro Suc.hyps(1)) simp_all
  from lt Suc.prems(2) part h step show ?case
    by (subst acceptCoin_loop.simps) simp
qed



section \<open>Resolution: determineCheater\<close>

text \<open>
  C1, as the claim states it, fails in what the verdict carries. For two share sets
  whose only round decodes to \<open>IDENT:alice\<close>, with the marker \<open>IDENT\<close>, resolution
  gives \<open>BuyerIdentified\<close> of the whole string \<open>IDENT:alice\<close>, marker included, and
  not of the rest after the marker.
\<close>

theorem determineCheater_identity_counterexample:
  "determineCheater 1 (js ''IDENT'') ''g1''
       [''4944454e543a616c696365''] [''0000000000000000000000''] =
     Inr (BuyerIdentified (js ''IDENT:alice'')) \<and>
   identity_after_marker (js ''IDENT'') (js ''IDENT:alice'') = js '':alice'' \<and>
   determineCheater 1 (js ''IDENT'') ''g1''
       [''4944454e543a616c696365''] [''0000000000000000000000''] \<noteq>
     Inr (BuyerIdentified (identity_after_marker (js ''IDENT'') (js ''IDENT:alice'')))"
  by (simp add: determineCheater_def determineCheater_loop.simps xorStr_of_def xor_buffers_def
      nth_opt_def unhex_def Buffer_toString_def utf8_init_def utf8_lead_def utf16_units_def
      startsWith_def js_def identity_after_marker_def)

text \<open>
  C1, amended. If round \<open>i\<close> is the first round whose byte-wise XOR decodes to a
  string that begins with the identity marker, resolution returns \<open>BuyerIdentified\<close>
  for that round, carrying the whole decoded string of round \<open>i\<close>: the marker
  followed by the rest, which is the owner identity of the spec. No later round is
  examined: the outcome is the same whatever entries, if any, follow round \<open>i\<close> in
  the two share sets. The two entries of a round need not have equal lengths for
  this.
\<close>

theorem determineCheater_first_match:
  assumes "i < COIN_RIS_LENGTH" and "i < length ris1" and "i < length ris2"
    and "startsWith (xorStr_of (ris1 ! i) (ris2 ! i)) IDENT_STR"
    and "\<forall>j<i. \<not> startsWith (xorStr_of (ris1 ! j) (ris2 ! j)) IDENT_STR"
  shows "determineCheater COIN_RIS_LENGTH IDENT_STR g ris1 ris2 =
           Inr (BuyerIdentified (xorStr_of (ris1 ! i) (ris2 ! i))) \<and>
         xorStr_of (ris1 ! i) (ris2 ! i) =
           IDENT_STR @ identity_after_marker IDENT_STR (xorStr_of (ris1 ! i) (ris2 ! i)) \<and>
         determineCheater COIN_RIS_LENGTH IDENT_STR g
             (take (Suc i) ris1 @ later1) (take (Suc i) ris2 @ later2) =
           Inr (BuyerIdentified (xorStr_of (ris1 ! i) (ris2 ! i)))"
proof (intro conjI)
  show "xorStr_of (ris1 ! i) (ris2 ! i) =
        IDENT_STR @ identity_after_marker IDENT_STR (xorStr_of (ris1 ! i) (ris2 ! i))"
    using assms(4) append_take_drop_id [of "length IDENT_STR" "xorStr_of (ris1 ! i) (ris2 ! i)"]
    by (simp add: startsWith_def identity_after_marker_def)
next
  show "determineCheater COIN_RIS_LENGTH IDENT_STR g ris1 ris2 =
        Inr (BuyerIdentified (xorStr_of (ris1 ! i) (ris2 ! i)))"
    unfolding determineCheater_def
    using assms by (intro determineCheater_loop_first) simp_all
next
  let ?r1 = "take (Suc i) ris1 @ later1" and ?r2 = "take (Suc i) ris2 @ later2"
  have same: "?r1 ! j = ris1 ! j \<and> ?r2 ! j = ris2 ! j" if "j \<le> i" for j
    using that assms(2,3) by (simp add: nth_append)
  have "determineCheater_loop COIN_RIS_LENGTH IDENT_STR ?r1 ?r2 0 =
        Inr (BuyerIdentified (xorStr_of (?r1 ! i) (?r2 ! i)))"
  proof (rule determineCheater_loop_first)
    show "i < length ?r1" "i < length ?r2" using assms(2,3) by simp_all
    show "startsWith (xorStr_of (?r1 ! i) (?r2 ! i)) IDENT_STR"
      using same [of i] assms(4) by simp
    show "\<forall>j. 0 \<le> j \<and> j < i \<longrightarrow> \<not> startsWith (xorStr_of (?r1 ! j) (?r2 ! j)) IDENT_STR"
      using same assms(5) by simp
  qed (use assms(1) in simp_all)
  with same [of i] show "determineCheater COIN_RIS_LENGTH IDENT_STR g ?r1 ?r2 =
        Inr (BuyerIdentified (xorStr_of (ris1 ! i) (ris2 ! i)))"
    by (simp add: determineCheater_def)
qed

text \<open>
  The two share sets that the example draws and the all-left draws reveal from the
  example coin agree in round 0 and differ in round 1, whose decoded string is
  reported.
\<close>

theorem determineCheater_first_match_witness:
  "determineCheater 2 (js ''I'') ''g1'' [''01'', ''4b''] [''01'', ''02''] =
     Inr (BuyerIdentified (js ''I''))"
  using determineCheater_first_match [where i = 1 and COIN_RIS_LENGTH = 2
      and ?ris1.0 = "[''01'', ''4b'']" and ?ris2.0 = "[''01'', ''02'']"
      and IDENT_STR = "js ''I''" and g = "''g1''" and ?later1.0 = "[]" and ?later2.0 = "[]"]
  by (simp add: xorStr_of_def xor_buffers_def nth_opt_def unhex_def Buffer_toString_def
      utf8_init_def utf8_lead_def utf16_units_def startsWith_def js_def)

text \<open>
  C2. Resolving a share set of at least \<open>COIN_RIS_LENGTH\<close> entries against itself
  gives \<open>MerchantSuspected\<close>: the XOR of every round is all zero, and a string of NUL
  characters does not begin with the identity marker, which is taken to contain a
  character other than NUL.
\<close>

theorem determineCheater_identical:
  assumes "COIN_RIS_LENGTH \<le> length ris" and "\<exists>c\<in>set IDENT_STR. c \<noteq> 0"
  shows "determineCheater COIN_RIS_LENGTH IDENT_STR g ris ris = Inr MerchantSuspected \<and>
         (\<forall>i<COIN_RIS_LENGTH.
            xor_buffers (Buffer_from_hex (ris ! i)) (Buffer_from_hex (ris ! i)) =
            replicate (length (Buffer_from_hex (ris ! i))) 0)"
proof -
  have nomatch: "\<not> startsWith (xorStr_of h h) IDENT_STR" for h
    using assms(2) startsWith_zeros [of "length (Buffer_from_hex h)" IDENT_STR]
    by (auto simp: xorStr_of_def xor_buffers_self Buffer_toString_zeros)
  have "determineCheater_loop COIN_RIS_LENGTH IDENT_STR ris ris 0 = Inr MerchantSuspected"
    using assms(1) nomatch by (intro determineCheater_loop_none) simp_all
  then show ?thesis
    by (simp add: determineCheater_def xor_buffers_self)
qed

theorem determineCheater_identical_witness:
  "determineCheater 2 (js ''I'') ''g1'' [''01'', ''4b''] [''01'', ''4b''] = Inr MerchantSuspected"
  using determineCheater_identical [where COIN_RIS_LENGTH = 2 and ris = "[''01'', ''4b'']"
      and IDENT_STR = "js ''I''" and g = "''g1''"]
  by (simp add: js_def)

text \<open>
  C5, as the claim states it, fails: the code has no length check. With a first entry
  of two bytes and a second of one byte, resolution does not fail; the byte missing
  from the second entry counts as zero and the buyer is identified.
\<close>

theorem determineCheater_length_mismatch_counterexample:
  "length (Buffer_from_hex ''4944'') \<noteq> length (Buffer_from_hex ''00'') \<and>
   determineCheater 1 (js ''ID'') ''g1'' [''4944''] [''00''] = Inr (BuyerIdentified (js ''ID''))"
  by (simp add: determineCheater_def determineCheater_loop.simps xorStr_of_def xor_buffers_def
      nth_opt_def unhex_def Buffer_toString_def utf8_init_def utf8_lead_def utf16_units_def
      startsWith_def js_def)

text \<open>
  C5, amended. For two share sets of at least \<open>COIN_RIS_LENGTH\<close> entries each in which
  some round's two entries have unequal byte lengths, resolution does not fail and
  returns a verdict. The XOR of a round has the length of the first entry; a byte
  the second entry lacks counts as zero, and bytes of the second entry beyond the
  length of the first are not read.
\<close>

theorem determineCheater_unequal_lengths:
  assumes "COIN_RIS_LENGTH \<le> length ris1" and "COIN_RIS_LENGTH \<le> length ris2"
    and "\<exists>i<COIN_RIS_LENGTH.
           length (Buffer_from_hex (ris1 ! i)) \<noteq> length (Buffer_from_hex (ris2 ! i))"
  shows "(\<exists>v. determineCheater COIN_RIS_LENGTH IDENT_STR g ris1 ris2 = Inr v) \<and>
         (\<forall>i<COIN_RIS_LENGTH.
            let buf1 = Buffer_from_hex (ris1 ! i); buf2 = Buffer_from_hex (ris2 ! i) in
            length (xor_buffers buf1 buf2) = length buf1 \<and>
            (\<forall>j<length buf1.
               xor_buffers buf1 buf2 ! j = (buf1 ! j) XOR (if j < length buf2 then buf2 ! j else 0)))"
  using assms(1,2) determineCheater_loop_returns [of COIN_RIS_LENGTH ris1 ris2 IDENT_STR 0]
  by (simp add: determineCheater_def Let_def length_xor_buffers nth_xor_buffers)

theorem determineCheater_unequal_lengths_witness:
  "\<exists>v. determineCheater 1 (js ''ID'') ''g1'' [''4944''] [''00''] = Inr v"
  using determineCheater_unequal_lengths [where COIN_RIS_LENGTH = 1 and ?ris1.0 = "[''4944'']"
      and ?ris2.0 = "[''00'']" and IDENT_STR = "js ''ID''" and g = "''g1''"]
  by (simp add: unhex_def)

text \<open>
  C7. For two share sets of at least \<open>COIN_RIS_LENGTH\<close> entries each whose entries
  have equal byte lengths in every round, resolution does not fail: it returns one
  verdict, which is \<open>MerchantSuspected\<close> exactly when no round's XOR begins with the
  marker and \<open>BuyerIdentified\<close> otherwise. The function is total, so it terminates.
\<close>

theorem determineCheater_returns_verdict:
  assumes "COIN_RIS_LENGTH \<le> length ris1" and "COIN_RIS_LENGTH \<le> length ris2"
    and "\<forall>i<COIN_RIS_LENGTH.
           length (Buffer_from_hex (ris1 ! i)) = length (Buffer_from_hex (ris2 ! i))"
  shows "\<exists>v. determineCheater COIN_RIS_LENGTH IDENT_STR g ris1 ris2 = Inr v \<and>
           (v = MerchantSuspected \<longleftrightarrow>
              (\<forall>i<COIN_RIS_LENGTH. \<not> startsWith (xorStr_of (ris1 ! i) (ris2 ! i)) IDENT_STR)) \<and>
           (v \<noteq> MerchantSuspected \<longrightarrow> (\<exists>s. v = BuyerIdentified s))"
proof (cases "\<forall>i<COIN_RIS_LENGTH. \<not> startsWith (xorStr_of (ris1 ! i) (ris2 ! i)) IDENT_STR")
  case True
  then have "determineCheater_loop COIN_RIS_LENGTH IDENT_STR ris1 ris2 0 = Inr MerchantSuspected"
    using assms(1,2) by (intro determineCheater_loop_none) simp_all
  with True show ?thesis by (simp add: determineCheater_def)
next
  case False
  define P where "P i \<longleftrightarrow> i < COIN_RIS_LENGTH \<and> startsWith (xorStr_of (ris1 ! i) (ris2 ! i)) IDENT_STR" for i
  from False have ex: "\<exists>i. P i" by (auto simp: P_def)
  define m where "m = (LEAST i. P i)"
  have Pm: "P m" unfolding m_def using ex by (rule LeastI_ex)
  have least: "\<not> P j" if "j < m" for j
    using that not_less_Least unfolding m_def by blast
  have "determineCheater_loop COIN_RIS_LENGTH IDENT_STR ris1 ris2 0 =
        Inr (BuyerIdentified (xorStr_of (ris1 ! m) (ris2 ! m)))"
  proof (rule determineCheater_loop_first)
    show "m < COIN_RIS_LENGTH" using Pm by (simp add: P_def)
    then show "m < length ris1" "m < length ris2" using assms(1,2) by simp_all
    show "startsWith (xorStr_of (ris1 ! m) (ris2 ! m)) IDENT_STR" using Pm by (simp add: P_def)
    show "\<forall>j. 0 \<le> j \<and> j < m \<longrightarrow> \<not> startsWith (xorStr_of (ris1 ! j) (ris2 ! j)) IDENT_STR"
      using least Pm by (auto simp: P_def)
  qed simp
  with False show ?thesis by (simp add: determineCheater_def)
qed

theorem determineCheater_returns_verdict_witness:
  "\<exists>v. determineCheater 2 (js ''I'') ''g1'' [''01'', ''4b''] [''48'', ''4b''] = Inr v \<and>
        v \<noteq> MerchantSuspected"
proof -
  have len: "\<forall>i<2. length (Buffer_from_hex ([''01'', ''4b''] ! i)) =
                   length (Buffer_from_hex ([''48'', ''4b''] ! i))"
    by (simp add: unhex_def less_2_cases_iff)
  have hit: "\<exists>i<2. startsWith (xorStr_of ([''01'', ''4b''] ! i) ([''48'', ''4b''] ! i)) (js ''I'')"
    by (rule exI [of _ 0]) (simp add: xorStr_of_def xor_buffers_def nth_opt_def unhex_def Buffer_toString_def
        utf8_init_def utf8_lead_def utf16_units_def startsWith_def js_def)
  from determineCheater_returns_verdict [where COIN_RIS_LENGTH = 2 and ?ris1.0 = "[''01'', ''4b'']"
      and ?ris2.0 = "[''48'', ''4b'']" and IDENT_STR = "js ''I''" and g = "''g1''", OF _ _ len]
  obtain v where v: "determineCheater 2 (js ''I'') ''g1'' [''01'', ''4b''] [''48'', ''4b''] = Inr v"
    and iff: "v = MerchantSuspected \<longleftrightarrow>
       (\<forall>i<2. \<not> startsWith (xorStr_of ([''01'', ''4b''] ! i) ([''48'', ''4b''] ! i)) (js ''I''))"
    by auto
  from iff hit have "v \<noteq> MerchantSuspected" by blast
  with v show ?thesis by blast
qed

text \<open>
  C10. The verdict does not depend on the \<open>guid\<close> argument: for any two values of it,
  \<open>determineCheater\<close> gives the same outcome on the same two share sets.
\<close>

theorem determineCheater_guid_irrelevant:
  "determineCheater COIN_RIS_LENGTH IDENT_STR g1 ris1 ris2 =
   determineCheater COIN_RIS_LENGTH IDENT_STR g2 ris1 ris2"
  by (simp add: determineCheater_def)

section \<open>Acceptance: acceptCoin\<close>

text \<open>
  C3. For a coin whose signature verifies, whose commitment string parses and which
  has a share on each side for every round, acceptance returns a share set exactly
  when every round is verified, that is, when the share revealed on the drawn side
  hashes to the committed hash of that side and round. The set returned is the
  ordered list of the \<open>COIN_RIS_LENGTH\<close> revealed shares, in hex. Otherwise acceptance
  fails with \<open>ShareCommitmentMismatch\<close> at the first round that is not verified, and
  returns no share set.
\<close>

theorem acceptCoin_shares_iff:
  assumes "verify (signature c) (bank_modulus c) (bank_exponent c) (Coin_toString c)"
    and "parseCoin BANK_STR (Coin_toString c) = Inr (leftHashes, rightHashes)"
    and "COIN_RIS_LENGTH \<le> length (left_shares c)"
    and "COIN_RIS_LENGTH \<le> length (right_shares c)"
  shows "((\<exists>ris. fst (acceptCoin verify hash draws COIN_RIS_LENGTH BANK_STR c) = Inr ris) \<longleftrightarrow>
            (\<forall>i<COIN_RIS_LENGTH. round_verified hash draws leftHashes rightHashes c i)) \<and>
         ((\<forall>i<COIN_RIS_LENGTH. round_verified hash draws leftHashes rightHashes c i) \<longrightarrow>
            fst (acceptCoin verify hash draws COIN_RIS_LENGTH BANK_STR c) =
              Inr (map (\<lambda>i. Buffer_toString_hex (revealed_share draws c i)) [0..<COIN_RIS_LENGTH])) \<and>
         (\<not> (\<forall>i<COIN_RIS_LENGTH. round_verified hash draws leftHashes rightHashes c i) \<longrightarrow>
            fst (acceptCoin verify hash draws COIN_RIS_LENGTH BANK_STR c) =
              Inl (ShareCommitmentMismatch
                    (LEAST i. i < COIN_RIS_LENGTH \<and>
                              \<not> round_verified hash draws leftHashes rightHashes c i)))"
proof -
  let ?A = "fst (acceptCoin verify hash draws COIN_RIS_LENGTH BANK_STR c)"
  let ?L = "fst (acceptCoin_loop hash draws COIN_RIS_LENGTH leftHashes rightHashes c 0 [])"
  let ?ok = "\<lambda>i. round_verified hash draws leftHashes rightHashes c i"
  have A: "?A = ?L"
    using assms(1,2) by (simp add: acceptCoin_def)
  have good: "?L = Inr (map (\<lambda>i. Buffer_toString_hex (revealed_share draws c i)) [0..<COIN_RIS_LENGTH])"
    if "\<forall>i<COIN_RIS_LENGTH. ?ok i"
    using that acceptCoin_loop_all_verified
      [of 0 COIN_RIS_LENGTH hash draws leftHashes rightHashes c "[]"] by simp
  have bad: "?L = Inl (ShareCommitmentMismatch (LEAST i. i < COIN_RIS_LENGTH \<and> \<not> ?ok i))"
    if "\<not> (\<forall>i<COIN_RIS_LENGTH. ?ok i)"
  proof -
    define P where "P i \<longleftrightarrow> i < COIN_RIS_LENGTH \<and> \<not> ?ok i" for i
    define m where "m = (LEAST i. P i)"
    from that have "\<exists>i. P i" by (auto simp: P_def)
    then have Pm: "P m" unfolding m_def by (rule LeastI_ex)
    have least: "\<not> P j" if "j < m" for j
      using that not_less_Least unfolding m_def by blast
    have m: "m < COIN_RIS_LENGTH" and notok: "\<not> ?ok m" using Pm by (simp_all add: P_def)
    have present: "Coin_getRis c (draws m = 0) m \<noteq> None"
      using m assms(3,4) by (simp add: Coin_getRis_def nth_opt_def)
    have before: "\<forall>j. 0 \<le> j \<and> j < m \<longrightarrow> ?ok j"
      using least m by (auto simp: P_def)
    have "?L = Inl (ShareCommitmentMismatch m)"
      using m notok present before by (intro acceptCoin_loop_first_mismatch) simp_all
    then show ?thesis by (simp add: m_def P_def)
  qed
  show ?thesis
  proof (cases "\<forall>i<COIN_RIS_LENGTH. ?ok i")
    case True
    with good A show ?thesis by simp
  next
    case False
    with bad A show ?thesis by simp
  qed
qed

text \<open>
  The example coin is accepted under the example draws: the left share of round 0
  and the right share of round 1 are returned.
\<close>

theorem acceptCoin_shares_iff_witness:
  "fst (acceptCoin demo_verify demo_hash demo_draws 2 ''BANK'' demo_coin) = Inr [''01'', ''4b'']"
proof -
  have v: "demo_verify (signature demo_coin) (bank_modulus demo_coin) (bank_exponent demo_coin)
             (Coin_toString demo_coin)"
    by (simp add: demo_verify_def demo_coin_def)
  have p: "parseCoin ''BANK'' (Coin_toString demo_coin) = Inr ([''01'', ''02''], [''48'', ''4b''])"
    by (simp add: parseCoin_def Coin_toString_def demo_coin_def nth_opt_def)
  have l: "2 \<le> length (left_shares demo_coin)" and r: "2 \<le> length (right_shares demo_coin)"
    by (simp_all add: demo_coin_def)
  have rounds: "[0..<2] = [0, Suc 0]"
    by (simp add: numeral_2_eq_2)
  have ok: "\<forall>i<2. round_verified demo_hash demo_draws [''01'', ''02''] [''48'', ''4b''] demo_coin i"
    by (simp add: less_2_cases_iff round_verified_def Coin_getRis_def nth_opt_def demo_coin_def
        demo_draws_def demo_hash_def Buffer_toString_hex_def hexdigit_def)
  have "fst (acceptCoin demo_verify demo_hash demo_draws 2 ''BANK'' demo_coin) =
        Inr (map (\<lambda>i. Buffer_toString_hex (revealed_share demo_draws demo_coin i)) [0..<2])"
    using acceptCoin_shares_iff [where verify = demo_verify and c = demo_coin
        and BANK_STR = "''BANK''" and leftHashes = "[''01'', ''02'']"
        and rightHashes = "[''48'', ''4b'']" and COIN_RIS_LENGTH = 2 and hash = demo_hash
        and draws = demo_draws, OF v p l r] ok
    by blast
  also have "map (\<lambda>i. Buffer_toString_hex (revealed_share demo_draws demo_coin i)) [0..<2] =
        [''01'', ''4b'']"
    by (simp add: rounds revealed_share_def demo_draws_def demo_coin_def
        Buffer_toString_hex_def hexdigit_def)
  finally show ?thesis .
qed

text \<open>
  C4. Acceptance verifies the coin's signature against its commitment string with the
  modulus and exponent stored in the coin. If this verification fails, acceptance
  fails with \<open>InvalidSignature\<close>, whatever the hash, the draws and the shares are: no
  share is collected.
\<close>

theorem acceptCoin_invalid_signature:
  assumes "\<not> verify (signature c) (bank_modulus c) (bank_exponent c) (commitment_string c)"
  shows "fst (acceptCoin verify hash draws COIN_RIS_LENGTH BANK_STR c) = Inl InvalidSignature"
  using assms by (simp add: acceptCoin_def Coin_toString_def)

theorem acceptCoin_invalid_signature_witness:
  "fst (acceptCoin demo_verify demo_hash demo_draws 2 ''BANK'' (demo_coin\<lparr>signature := Some 2\<rparr>)) =
     Inl InvalidSignature"
  using acceptCoin_invalid_signature [where verify = demo_verify and c = "demo_coin\<lparr>signature := Some 2\<rparr>"
      and hash = demo_hash and draws = demo_draws and COIN_RIS_LENGTH = 2 and BANK_STR = "''BANK''"]
  by (simp add: demo_verify_def)

text \<open>
  C6, as the claim states it, fails: the signature is verified before the tag is
  looked at. A coin with the tag \<open>EVIL\<close>, which \<open>parseCoin\<close> rejects as malformed, and
  with the wrong signature 2 is rejected with \<open>InvalidSignature\<close>.
\<close>

theorem acceptCoin_tag_after_signature_counterexample:
  "parseCoin ''BANK'' ''EVIL-20-g1-01,02-48,4b'' = Inl (MalformedCoin ''EVIL'') \<and>
   fst (acceptCoin demo_verify demo_hash demo_draws 2 ''BANK''
          (demo_coin\<lparr>commitment_string := ''EVIL-20-g1-01,02-48,4b'', signature := Some 2\<rparr>)) =
     Inl InvalidSignature"
  by (simp add: parseCoin_def nth_opt_def acceptCoin_def demo_verify_def)

text \<open>
  C6, amended. For every coin whose commitment string's leading issuer tag differs
  from the expected bank identifier: if its signature verifies, acceptance rejects it
  as malformed (\<open>MalformedCoin\<close>) before any share is revealed or hashed; if its
  signature does not verify, acceptance rejects it with \<open>InvalidSignature\<close>. The tag
  check follows signature verification.
\<close>

theorem acceptCoin_malformed_tag:
  assumes "nth_opt (split_on CHR ''-'' (commitment_string c)) 0 = Some tag"
    and "tag \<noteq> BANK_STR"
  shows "fst (acceptCoin verify hash draws COIN_RIS_LENGTH BANK_STR c) =
           (if verify (signature c) (bank_modulus c) (bank_exponent c) (commitment_string c)
            then Inl (MalformedCoin tag) else Inl InvalidSignature)"
  using assms by (simp add: acceptCoin_def parseCoin_def Coin_toString_def)

theorem acceptCoin_malformed_tag_witness:
  "fst (acceptCoin demo_verify demo_hash demo_draws 2 ''BANK''
          (demo_coin\<lparr>commitment_string := ''EVIL-20-g1-01,02-48,4b''\<rparr>)) =
     Inl (MalformedCoin ''EVIL'')"
  using acceptCoin_malformed_tag [where c = "demo_coin\<lparr>commitment_string := ''EVIL-20-g1-01,02-48,4b''\<rparr>"
      and tag = "''EVIL''" and BANK_STR = "''BANK''" and verify = demo_verify and hash = demo_hash
      and draws = demo_draws and COIN_RIS_LENGTH = 2]
  by (simp add: nth_opt_def demo_verify_def demo_coin_def)

text \<open>
  C9. Acceptance does not change the coin: whether it accepts or rejects, the coin
  after the call is the coin before it, in every field.
\<close>

theorem acceptCoin_coin_unchanged:
  "snd (acceptCoin verify hash draws COIN_RIS_LENGTH BANK_STR coin) = coin"
  by (simp add: acceptCoin_def snd_acceptCoin_loop split: sum.split prod.split)

section \<open>Attaching the signature\<close>

text \<open>
  C8, as the claim states it, fails: the example coin already carries the signature
  1, and attaching the signature 7 to it does not fail but replaces the signature.
\<close>

theorem attach_signature_twice_counterexample:
  "signature demo_coin = Some 1 \<and>
   attach_signature 7 demo_coin = Inr (demo_coin\<lparr>signature := Some 7\<rparr>)"
  by (simp add: attach_signature_def demo_coin_def)

text \<open>
  C8, amended. Attaching a signature is a data assignment with no verification and
  never fails: it stores the signature and leaves the other fields as they are. On a
  coin that already carries a signature, a second attachment replaces the stored one.
\<close>

theorem attach_signature_assigns:
  "attach_signature sig c = Inr (c\<lparr>signature := Some sig\<rparr>) \<and>
   (case attach_signature sig1 c of
      Inl err \<Rightarrow> False
    | Inr c1 \<Rightarrow> attach_signature sig2 c1 = Inr (c\<lparr>signature := Some sig2\<rparr>))"
  by (simp add: attach_signature_def)

end
